theory Spec2Isabelle
  imports Complex_Main
begin

section \<open>Data model\<close>

text \<open>
  The module \<^verbatim>\<open>claninfo.py\<close> fetches one JSON document, flattens it into tables and
  writes one CSV file per table. A Python \<^verbatim>\<open>str\<close> is a \<open>string\<close> (one \<open>char\<close> per
  character), a Python \<^verbatim>\<open>dict\<close> is an association list in insertion order (its keys are
  distinct), and an exception is the left summand of a result. The network, the clock and
  the file system are explicit: a scripted transport, a record of the requests issued and
  the waits slept, and a record of the files written. The operations whose results are
  fixed by the Python runtime and not by the module (the case mapping of \<^verbatim>\<open>str.upper()\<close>,
  the float power, \<^verbatim>\<open>time.sleep\<close>) are parameters. What \<^verbatim>\<open>print\<close> writes is left out.
\<close>

text \<open>The values \<^verbatim>\<open>response.json()\<close> can return: \<^verbatim>\<open>None\<close>, \<^verbatim>\<open>bool\<close>, \<^verbatim>\<open>int\<close>,
  \<^verbatim>\<open>float\<close>, \<^verbatim>\<open>str\<close>, \<^verbatim>\<open>dict\<close> and \<^verbatim>\<open>list\<close>.\<close>

datatype json =
    JNull
  | JBool bool
  | JInt int
  | JFloat real
  | JStr string
  | JObj "(string \<times> json) list"
  | JArr "json list"

text \<open>A row is the dict \<^verbatim>\<open>row\<close> of \<^verbatim>\<open>_flatten_json\<close>; the output \<^verbatim>\<open>out\<close> maps a table
  name to its bucket, the list of rows.\<close>

type_synonym row = "(string \<times> json) list"
type_synonym tables = "(string \<times> row list) list"

text \<open>\<^verbatim>\<open>isinstance(v, (dict, list))\<close>\<close>

fun is_container :: "json \<Rightarrow> bool" where
  "is_container (JObj kvs) = True"
| "is_container (JArr xs) = True"
| "is_container v = False"

text \<open>\<^verbatim>\<open>d[k] = v\<close> on a dict: an existing key keeps its position and takes the new
  value, a new key goes to the end.\<close>

fun dict_set :: "('k \<times> 'v) list \<Rightarrow> 'k \<Rightarrow> 'v \<Rightarrow> ('k \<times> 'v) list" where
  "dict_set [] k v = [(k, v)]"
| "dict_set ((k', v') # d) k v =
     (if k' = k then (k', v) # d else (k', v') # dict_set d k v)"

text \<open>\<^verbatim>\<open>out[parent_key].append(row)\<close> on a \<^verbatim>\<open>defaultdict(list)\<close>: a missing key is
  created with an empty bucket at the end of the dict, then the row is appended.\<close>

fun append_row :: "string \<Rightarrow> row \<Rightarrow> tables \<Rightarrow> tables" where
  "append_row name r [] = [(name, [r])]"
| "append_row name r ((n, rows) # out) =
     (if n = name then (n, rows @ [r]) # out else (n, rows) # append_row name r out)"

section \<open>The flattener\<close>

text \<open>
  \<^verbatim>\<open>_flatten_json(obj, parent_key, out)\<close>. \<open>flatten_items\<close> is the loop over
  \<^verbatim>\<open>obj.items()\<close> with the row built so far, \<open>flatten_list\<close> the loop over the items of
  a list. The shared mutable \<^verbatim>\<open>out\<close> is passed through and returned.
\<close>

fun flatten_json :: "json \<Rightarrow> string \<Rightarrow> tables \<Rightarrow> tables"
  and flatten_items :: "(string \<times> json) list \<Rightarrow> string \<Rightarrow> row \<Rightarrow> tables \<Rightarrow> row \<times> tables"
  and flatten_list :: "json list \<Rightarrow> string \<Rightarrow> tables \<Rightarrow> tables"
where
  "flatten_json (JObj kvs) parent_key out =
     (case flatten_items kvs parent_key [] out of
        (row, out') \<Rightarrow> if row \<noteq> [] then append_row parent_key row out' else out')"
| "flatten_json (JArr xs) parent_key out = flatten_list xs parent_key out"
| "flatten_json JNull parent_key out = out"
| "flatten_json (JBool b) parent_key out = out"
| "flatten_json (JInt i) parent_key out = out"
| "flatten_json (JFloat x) parent_key out = out"
| "flatten_json (JStr s) parent_key out = out"
| "flatten_items [] parent_key row out = (row, out)"
| "flatten_items ((k, v) # kvs) parent_key row out =
     (if is_container v
      then flatten_items kvs parent_key row (flatten_json v (parent_key @ ''.'' @ k) out)
      else flatten_items kvs parent_key (dict_set row k v) out)"
| "flatten_list [] parent_key out = out"
| "flatten_list (item # xs) parent_key out =
     flatten_list xs parent_key (flatten_json item parent_key out)"


section \<open>Tables as data frames, and the writer\<close>

text \<open>
  \<^verbatim>\<open>pd.DataFrame(rows)\<close> on a list of dicts: one record per dict, the columns are the
  keys of the dicts in the order they are first seen. \<^verbatim>\<open>df.empty\<close> holds when there
  is no record or no column.
\<close>

record dataframe =
  columns :: "string list"
  records :: "row list"

fun union_keys :: "string list \<Rightarrow> row list \<Rightarrow> string list" where
  "union_keys seen [] = seen"
| "union_keys seen (r # rs) =
     union_keys (seen @ filter (\<lambda>k. k \<notin> set seen) (map fst r)) rs"

definition DataFrame :: "row list \<Rightarrow> dataframe" where
  "DataFrame rows = \<lparr>columns = union_keys [] rows, records = rows\<rparr>"

definition df_empty :: "dataframe \<Rightarrow> bool" where
  "df_empty df = (records df = [] \<or> columns df = [])"

text \<open>The loop \<^verbatim>\<open>for table_name, rows in tables.items(): dfs[table_name] = pd.DataFrame(rows)\<close>
  of the fetcher.\<close>

fun to_dataframes :: "tables \<Rightarrow> (string \<times> dataframe) list \<Rightarrow> (string \<times> dataframe) list" where
  "to_dataframes [] dfs = dfs"
| "to_dataframes ((table_name, rows) # ts) dfs =
     to_dataframes ts (dict_set dfs table_name (DataFrame rows))"

text \<open>
  The pattern \<^verbatim>\<open>[^a-zA-Z0-9_.-]\<close> is a negated character class of ranges and single
  characters; \<^verbatim>\<open>re.sub\<close> with it replaces every character that is in none of them.
\<close>

datatype class_item = Range char char | Single char

fun class_item_matches :: "class_item \<Rightarrow> char \<Rightarrow> bool" where
  "class_item_matches (Range lo hi) c =
     ((of_char lo :: nat) \<le> of_char c \<and> (of_char c :: nat) \<le> of_char hi)"
| "class_item_matches (Single x) c = (c = x)"

fun re_sub_negated_class :: "class_item list \<Rightarrow> string \<Rightarrow> string \<Rightarrow> string" where
  "re_sub_negated_class items repl [] = []"
| "re_sub_negated_class items repl (c # cs) =
     (if list_ex (\<lambda>i. class_item_matches i c) items
      then c # re_sub_negated_class items repl cs
      else repl @ re_sub_negated_class items repl cs)"

definition safe_name :: "string \<Rightarrow> string" where
  "safe_name table_name =
     re_sub_negated_class
       [Range CHR ''a'' CHR ''z'', Range CHR ''A'' CHR ''Z'', Range CHR ''0'' CHR ''9'',
        Single CHR ''_'', Single CHR ''.'', Single CHR ''-'']
       ''_'' table_name"

text \<open>\<^verbatim>\<open>os.path.join(a, b)\<close> on POSIX, for two components.\<close>

definition path_join :: "string \<Rightarrow> string \<Rightarrow> string" where
  "path_join a b =
     (if b \<noteq> [] \<and> hd b = CHR ''/'' then b
      else if a = [] \<or> last a = CHR ''/'' then a @ b
      else a @ ''/'' @ b)"

text \<open>
  \<^verbatim>\<open>save_tables_to_csv(tables, output_dir, index)\<close>. The result is what the call leaves
  behind: the files written by \<^verbatim>\<open>df.to_csv\<close>, in order, and the names of the tables
  for which the skip branch ran. The creation of the directory and the progress messages
  are left out.
\<close>

record csv_file =
  file_path :: string
  frame :: dataframe
  with_index :: bool

record writer_log =
  saved :: "csv_file list"
  skipped :: "string list"

fun save_tables_to_csv ::
  "(string \<times> dataframe) list \<Rightarrow> string \<Rightarrow> bool \<Rightarrow> writer_log \<Rightarrow> writer_log" where
  "save_tables_to_csv [] output_dir index wl = wl"
| "save_tables_to_csv ((table_name, df) # ts) output_dir index wl =
     (if df_empty df
      then save_tables_to_csv ts output_dir index (wl\<lparr>skipped := skipped wl @ [table_name]\<rparr>)
      else save_tables_to_csv ts output_dir index
             (wl\<lparr>saved := saved wl @
                [\<lparr>file_path = path_join output_dir (safe_name table_name @ ''.csv''),
                  frame = df, with_index = index\<rparr>]\<rparr>))"

section \<open>The fetcher\<close>

text \<open>
  Exceptions. \<open>RequestException\<close> stands for any instance of
  \<^verbatim>\<open>requests.exceptions.RequestException\<close> (the class the loop catches),
  \<open>OtherException\<close> for any exception the loop does not catch.
\<close>

datatype exn =
    AttributeError
  | ValueError
  | OverflowError
  | RuntimeError string
  | RequestException string
  | OtherException string

fun is_RequestException :: "exn \<Rightarrow> bool" where
  "is_RequestException (RequestException m) = True"
| "is_RequestException e = False"

record request =
  url :: string
  headers :: "(string \<times> string) list"
  timeout :: int

text \<open>A response: \<^verbatim>\<open>status_code\<close>, \<^verbatim>\<open>text\<close> (here \<open>resp_text\<close>), and what \<^verbatim>\<open>response.json()\<close> does
  (return the parsed body, or raise).\<close>

record response =
  status_code :: int
  resp_text :: string
  json_body :: "exn + json"

text \<open>
  The transport is scripted: its \<open>n\<close>-th call (from 0) raises or returns a response.
  The world records the requests issued and the waits slept, in order.
\<close>

type_synonym transport = "nat \<Rightarrow> exn + response"

record world =
  calls :: "request list"
  sleeps :: "real list"

definition world0 :: world where
  "world0 = \<lparr>calls = [], sleeps = []\<rparr>"

text \<open>
  The operations of the Python runtime that the fetcher calls and that are not arithmetic
  on the integers or the lists of the model. They are parameters of the model, since what
  they return is fixed by the interpreter and its C library, not by this module:
  \<^item> \<open>str_upper\<close> is \<^verbatim>\<open>str.upper()\<close>, which follows the Unicode case mapping;
  \<^item> \<open>float_pow b n\<close> is \<^verbatim>\<open>b ** n\<close> for a float \<^verbatim>\<open>b\<close> and an integer \<^verbatim>\<open>n\<close>: the double
    that the power function returns, which need not be the exact power, or the exception
    it raises (\<^verbatim>\<open>OverflowError\<close> when the result is out of range);
  \<^item> \<open>sleep_error secs\<close> is the exception that \<^verbatim>\<open>time.sleep(secs)\<close> raises, if any
    (\<^verbatim>\<open>ValueError\<close> on a negative wait, \<^verbatim>\<open>OverflowError\<close> on one beyond the range of the
    clock).
  A finite float is the real number it denotes.
\<close>

record platform =
  str_upper :: "string \<Rightarrow> string"
  float_pow :: "real \<Rightarrow> int \<Rightarrow> exn + real"
  sleep_error :: "real \<Rightarrow> exn option"

text \<open>\<^verbatim>\<open>time.sleep(secs)\<close>: raises, or returns after the wait.\<close>

definition time_sleep :: "platform \<Rightarrow> real \<Rightarrow> world \<Rightarrow> exn + world" where
  "time_sleep pf secs w =
     (case sleep_error pf secs of
        Some e \<Rightarrow> Inl e
      | None \<Rightarrow> Inr (w\<lparr>sleeps := sleeps w @ [secs]\<rparr>))"

text \<open>\<^verbatim>\<open>str.replace(old, new)\<close> for a one-character \<^verbatim>\<open>old\<close>, and \<^verbatim>\<open>str(n)\<close> for an
  integer.\<close>

definition str_replace :: "char \<Rightarrow> string \<Rightarrow> string \<Rightarrow> string" where
  "str_replace old new s = concat (map (\<lambda>c. if c = old then new else [c]) s)"

fun str_nat :: "nat \<Rightarrow> string" where
  "str_nat n =
     (if n < 10 then [char_of (48 + n)]
      else str_nat (n div 10) @ [char_of (48 + n mod 10)])"

definition str_int :: "int \<Rightarrow> string" where
  "str_int i = (if i < 0 then ''-'' @ str_nat (nat (- i)) else str_nat (nat i))"

text \<open>
  One pass through the body of \<^verbatim>\<open>for attempt in range(1, max_retries + 1)\<close>: the
  request, then one of \<^verbatim>\<open>continue\<close> (after the sleep), \<^verbatim>\<open>return dfs\<close>, or an exception
  that leaves the function.
\<close>

datatype outcome =
    Continue
  | Return "(string \<times> dataframe) list"
  | Raise exn

text \<open>
  \<^verbatim>\<open>wait = backoff_factor ** attempt; time.sleep(wait); continue\<close>. An exception of the
  power or of the sleep leaves the function: in the \<^verbatim>\<open>try\<close> block it is not a
  \<^verbatim>\<open>RequestException\<close>, and in the handler nothing catches it.
\<close>

definition sleep_and_continue :: "platform \<Rightarrow> real \<Rightarrow> int \<Rightarrow> world \<Rightarrow> outcome \<times> world" where
  "sleep_and_continue pf backoff_factor attempt w =
     (case float_pow pf backoff_factor attempt of
        Inl e \<Rightarrow> (Raise e, w)
      | Inr wait \<Rightarrow>
          (case time_sleep pf wait w of
             Inl e \<Rightarrow> (Raise e, w)
           | Inr w' \<Rightarrow> (Continue, w')))"

definition attempt_body ::
  "platform \<Rightarrow> transport \<Rightarrow> request \<Rightarrow> real \<Rightarrow> int \<Rightarrow> world \<Rightarrow> outcome \<times> world" where
  "attempt_body pf net req backoff_factor attempt w =
     (let w1 = w\<lparr>calls := calls w @ [req]\<rparr> in
      case net (length (calls w)) of
        Inl e \<Rightarrow>
          if is_RequestException e then sleep_and_continue pf backoff_factor attempt w1
          else (Raise e, w1)
      | Inr response \<Rightarrow>
          if status_code response = 429 then sleep_and_continue pf backoff_factor attempt w1
          else if status_code response \<ge> 500
          then sleep_and_continue pf backoff_factor attempt w1
          else if status_code response \<noteq> 200
          then (Raise (RuntimeError
                  (''HTTP '' @ str_int (status_code response) @ '': '' @ take 300 (resp_text response))),
                w1)
          else (case json_body response of
                  Inl e \<Rightarrow>
                    if is_RequestException e then sleep_and_continue pf backoff_factor attempt w1
                    else (Raise e, w1)
                | Inr data \<Rightarrow>
                    (Return (to_dataframes (flatten_json data ''root'' []) []), w1)))"

fun attempt_loop ::
  "platform \<Rightarrow> transport \<Rightarrow> request \<Rightarrow> real \<Rightarrow> int list \<Rightarrow> world
     \<Rightarrow> (exn + (string \<times> dataframe) list) \<times> world" where
  "attempt_loop pf net req backoff_factor [] w =
     (Inl (RuntimeError ''Max retries exceeded while fetching clan data''), w)"
| "attempt_loop pf net req backoff_factor (attempt # rest) w =
     (case attempt_body pf net req backoff_factor attempt w of
        (Continue, w') \<Rightarrow> attempt_loop pf net req backoff_factor rest w'
      | (Return dfs, w') \<Rightarrow> (Inr dfs, w')
      | (Raise e, w') \<Rightarrow> (Inl e, w'))"

text \<open>The URL and the headers of the request, as lines 89 to 99 build them.\<close>

definition clan_url :: "platform \<Rightarrow> string \<Rightarrow> string" where
  "clan_url pf clan_tag =
     (let clan_tag_clean = str_upper pf (str_replace CHR ''#'' [] clan_tag)
      in ''https://api.clashroyale.com/v1/clans/%23'' @ clan_tag_clean)"

definition auth_headers :: "string \<Rightarrow> (string \<times> string) list" where
  "auth_headers api_token =
     [(''Authorization'', ''Bearer '' @ api_token), (''Accept'', ''application/json'')]"

text \<open>
  \<^verbatim>\<open>fetch_clan_data_auto_tables(clan_tag, api_token, max_retries, backoff_factor, timeout)\<close>.
  The second argument is the module-level \<^verbatim>\<open>USER_TAG\<close>, the value of
  \<^verbatim>\<open>os.getenv("USER_TAG")\<close>: \<open>None\<close> when the variable is not set, and then
  \<^verbatim>\<open>USER_TAG.replace\<close> on line 90 raises \<^verbatim>\<open>AttributeError\<close>. When it is set,
  \<^verbatim>\<open>user_tag_clean\<close> is computed and not used.
\<close>

definition fetch_clan_data_auto_tables ::
  "platform \<Rightarrow> string option \<Rightarrow> string \<Rightarrow> string \<Rightarrow> int \<Rightarrow> real \<Rightarrow> int \<Rightarrow> transport
     \<Rightarrow> world \<Rightarrow> (exn + (string \<times> dataframe) list) \<times> world" where
  "fetch_clan_data_auto_tables pf USER_TAG clan_tag api_token max_retries backoff_factor tmo
       net w =
     (case USER_TAG of
        None \<Rightarrow> (Inl AttributeError, w)
      | Some user_tag \<Rightarrow>
          (let user_tag_clean = str_upper pf (str_replace CHR ''#'' [] user_tag)
           in attempt_loop pf net
                \<lparr>url = clan_url pf clan_tag, headers = auth_headers api_token, timeout = tmo\<rparr>
                backoff_factor [1..max_retries] w))"

text \<open>
  The platform at the arguments that the evaluations below use, where the operations of
  Python are exact: \<^verbatim>\<open>str.upper()\<close> on ASCII text (\<open>a\<close> to \<open>z\<close> become \<open>A\<close> to \<open>Z\<close>, every
  other ASCII character stays), the powers of the default factor 1.5 up to the exponent 5
  (1.5, 2.25, 3.375, 5.0625 and 7.59375 are doubles), and \<^verbatim>\<open>time.sleep\<close> on a wait of at
  most 8 seconds. Other arguments are not tabulated: nothing is evaluated there, and the
  definition says nothing about Python there.
\<close>

definition is_ascii :: "char \<Rightarrow> bool" where
  "is_ascii c = ((of_char c :: nat) < 128)"

definition char_upper :: "char \<Rightarrow> char" where
  "char_upper c =
     (if (97::nat) \<le> of_char c \<and> (of_char c :: nat) \<le> 122
      then char_of ((of_char c :: nat) - 32) else c)"

definition default_platform :: platform where
  "default_platform =
     \<lparr>str_upper = (\<lambda>s. if list_all is_ascii s then map char_upper s
                       else ''not tabulated''),
      float_pow = (\<lambda>b n. if b = 3 / 2 \<and> 1 \<le> n \<and> n \<le> 5 then Inr (b ^ nat n)
                          else Inl (OtherException ''not tabulated'')),
      sleep_error = (\<lambda>secs. if 0 \<le> secs \<and> secs \<le> 8 then None
                             else Some (OtherException ''not tabulated''))\<rparr>"

section \<open>Auxiliary definitions\<close>

text \<open>The row that the loop over \<^verbatim>\<open>obj.items()\<close> builds from a starting row: only the
  scalar fields are stored.\<close>

fun build_row :: "(string \<times> json) list \<Rightarrow> row \<Rightarrow> row" where
  "build_row [] row = row"
| "build_row ((k, v) # kvs) row =
     (if is_container v then build_row kvs row else build_row kvs (dict_set row k v))"

text \<open>The rows that a call of \<^verbatim>\<open>_flatten_json\<close> appends, each with the name of its table,
  in the order of the appends.\<close>

fun emitted :: "json \<Rightarrow> string \<Rightarrow> (string \<times> row) list"
  and emitted_items :: "(string \<times> json) list \<Rightarrow> string \<Rightarrow> (string \<times> row) list"
  and emitted_list :: "json list \<Rightarrow> string \<Rightarrow> (string \<times> row) list"
where
  "emitted (JObj kvs) p =
     emitted_items kvs p @ (if build_row kvs [] \<noteq> [] then [(p, build_row kvs [])] else [])"
| "emitted (JArr xs) p = emitted_list xs p"
| "emitted JNull p = []"
| "emitted (JBool b) p = []"
| "emitted (JInt i) p = []"
| "emitted (JFloat x) p = []"
| "emitted (JStr s) p = []"
| "emitted_items [] p = []"
| "emitted_items ((k, v) # kvs) p =
     (if is_container v then emitted v (p @ ''.'' @ k) else []) @ emitted_items kvs p"
| "emitted_list [] p = []"
| "emitted_list (x # xs) p = emitted x p @ emitted_list xs p"

text \<open>Appending a sequence of rows to the output, one after the other.\<close>

fun add_all :: "(string \<times> row) list \<Rightarrow> tables \<Rightarrow> tables" where
  "add_all [] out = out"
| "add_all ((p, r) # es) out = add_all es (append_row p r out)"

text \<open>The bucket of a table name: its rows, or none when the name is not a key.\<close>

definition bucket :: "tables \<Rightarrow> string \<Rightarrow> row list" where
  "bucket out n = (case map_of out n of None \<Rightarrow> [] | Some rows \<Rightarrow> rows)"

text \<open>The rows of a sequence of appends that go to one table.\<close>

definition rows_at :: "string \<Rightarrow> (string \<times> row) list \<Rightarrow> row list" where
  "rows_at n es = map snd (filter (\<lambda>e. fst e = n) es)"

text \<open>Every bucket has a row, and every row has a field.\<close>

definition good_tables :: "tables \<Rightarrow> bool" where
  "good_tables out = list_all (\<lambda>(n, rows). rows \<noteq> [] \<and> list_all (\<lambda>r. r \<noteq> []) rows) out"

text \<open>The table names as the specification words them: the sequence of object keys descended
  through to reach an object that has a scalar field. A list does not add a key.\<close>

fun key_paths :: "json \<Rightarrow> string list list"
  and key_paths_items :: "(string \<times> json) list \<Rightarrow> string list list"
  and key_paths_list :: "json list \<Rightarrow> string list list"
where
  "key_paths (JObj kvs) =
     key_paths_items kvs @ (if list_ex (\<lambda>(k, v). \<not> is_container v) kvs then [[]] else [])"
| "key_paths (JArr xs) = key_paths_list xs"
| "key_paths JNull = []"
| "key_paths (JBool b) = []"
| "key_paths (JInt i) = []"
| "key_paths (JFloat x) = []"
| "key_paths (JStr s) = []"
| "key_paths_items [] = []"
| "key_paths_items ((k, v) # kvs) =
     (if is_container v then map ((#) k) (key_paths v) else []) @ key_paths_items kvs"
| "key_paths_list [] = []"
| "key_paths_list (x # xs) = key_paths x @ key_paths_list xs"

text \<open>The dot-joined path: the parent name, then \<^verbatim>\<open>.key\<close> for each key.\<close>

definition dot_join :: "string \<Rightarrow> string list \<Rightarrow> string" where
  "dot_join parent ks = foldl (\<lambda>p k. p @ ''.'' @ k) parent ks"

text \<open>An object nested under a chain of keys.\<close>

fun nest :: "string list \<Rightarrow> json \<Rightarrow> json" where
  "nest [] leaf = leaf"
| "nest (k # ks) leaf = JObj [(k, nest ks leaf)]"

text \<open>An object as a dict can hold it (distinct keys) with at least one field and only scalar
  fields, and the fields of an object.\<close>

fun scalar_object :: "json \<Rightarrow> bool" where
  "scalar_object (JObj fs) =
     (fs \<noteq> [] \<and> distinct (map fst fs) \<and> list_all (\<lambda>kv. \<not> is_container (snd kv)) fs)"
| "scalar_object v = False"

fun fields :: "json \<Rightarrow> row" where
  "fields (JObj fs) = fs"
| "fields v = []"

text \<open>No other nested field of the object has a key that, followed by a dot, starts the name of
  the field: such a field could put rows of its own under the same dot-joined path.\<close>

definition starts_with :: "string \<Rightarrow> string \<Rightarrow> bool" where
  "starts_with p s = (take (length p) s = p)"

definition no_clash :: "string \<Rightarrow> (string \<times> json) list \<Rightarrow> bool" where
  "no_clash field kvs =
     list_all (\<lambda>kv. \<not> (is_container (snd kv) \<and> fst kv \<noteq> field
                        \<and> starts_with (fst kv @ ''.'') field)) kvs"

section \<open>Properties of the flattener\<close>

lemma add_all_append: "add_all (es @ fs) out = add_all fs (add_all es out)"
  by (induction es arbitrary: out) auto

lemma flatten_emitted:
  "flatten_json v p out = add_all (emitted v p) out"
  "flatten_items kvs p row out = (build_row kvs row, add_all (emitted_items kvs p) out)"
  "flatten_list xs p out = add_all (emitted_list xs p) out"
  by (induction v p out and kvs p row out and xs p out
      rule: flatten_json_flatten_items_flatten_list.induct)
     (simp_all add: add_all_append)

lemma map_of_append_row:
  "map_of (append_row n r out) = (map_of out)(n \<mapsto> bucket out n @ [r])"
  by (induction out) (auto simp: bucket_def fun_eq_iff)

lemma map_of_add_all:
  "map_of (add_all es out) n =
     (if rows_at n es = [] then map_of out n else Some (bucket out n @ rows_at n es))"
proof (induction es arbitrary: out)
  case Nil
  then show ?case by (simp add: rows_at_def)
next
  case (Cons e es)
  obtain p r where e: "e = (p, r)" by (cases e)
  show ?case
    by (simp add: e Cons.IH map_of_append_row rows_at_def bucket_def)
qed

lemma keys_append_row:
  "map fst (append_row n r out) =
     (if n \<in> set (map fst out) then map fst out else map fst out @ [n])"
  by (induction out) (force+)

lemma keys_add_all: "set (map fst (add_all es out)) = set (map fst out) \<union> set (map fst es)"
proof (induction es arbitrary: out)
  case Nil
  then show ?case by simp
next
  case (Cons e es)
  obtain p r where e: "e = (p, r)" by (cases e)
  have "set (map fst (append_row p r out)) = insert p (set (map fst out))"
    by (auto simp: keys_append_row)
  then show ?case
    by (simp add: e Cons.IH del: set_map)
qed

lemma distinct_append_row:
  "distinct (map fst out) \<Longrightarrow> distinct (map fst (append_row n r out))"
  by (simp add: keys_append_row)

lemma distinct_add_all:
  "distinct (map fst out) \<Longrightarrow> distinct (map fst (add_all es out))"
  by (induction es arbitrary: out) (auto simp: distinct_append_row)

lemma dict_set_nonempty: "dict_set d k v \<noteq> []"
  by (cases d) (auto split: if_splits)

lemma build_row_nonempty: "row \<noteq> [] \<Longrightarrow> build_row kvs row \<noteq> []"
  by (induction kvs row rule: build_row.induct) (auto simp: dict_set_nonempty)

lemma build_row_empty_iff:
  "build_row kvs [] \<noteq> [] \<longleftrightarrow> list_ex (\<lambda>(k, v). \<not> is_container v) kvs"
  by (induction kvs) (auto simp: build_row_nonempty split: if_splits)

lemma dict_set_fresh: "k \<notin> set (map fst d) \<Longrightarrow> dict_set d k v = d @ [(k, v)]"
  by (induction d) auto

lemma build_row_scalars:
  "distinct (map fst row @ map fst kvs) \<Longrightarrow>
   build_row kvs row = row @ filter (\<lambda>(k, v). \<not> is_container v) kvs"
proof (induction kvs arbitrary: row)
  case Nil
  then show ?case by simp
next
  case (Cons kv kvs)
  obtain k v where kv: "kv = (k, v)" by (cases kv)
  show ?case
  proof (cases "is_container v")
    case True
    with Cons.prems kv have "distinct (map fst row @ map fst kvs)" by simp
    with Cons.IH True kv show ?thesis by simp
  next
    case False
    from Cons.prems kv have fresh: "k \<notin> set (map fst row)" by auto
    from Cons.prems kv have "distinct (map fst (row @ [(k, v)]) @ map fst kvs)" by auto
    from Cons.IH [OF this] False kv fresh show ?thesis
      by (simp add: dict_set_fresh)
  qed
qed

lemma emitted_rows_nonempty:
  "list_all (\<lambda>e. snd e \<noteq> []) (emitted v p)"
  "list_all (\<lambda>e. snd e \<noteq> []) (emitted_items kvs p)"
  "list_all (\<lambda>e. snd e \<noteq> []) (emitted_list xs p)"
  by (induction v p and kvs p and xs p rule: emitted_emitted_items_emitted_list.induct)
     simp_all

lemma good_append_row: "good_tables out \<Longrightarrow> r \<noteq> [] \<Longrightarrow> good_tables (append_row n r out)"
  by (induction out) (auto simp: good_tables_def)

lemma good_add_all:
  "good_tables out \<Longrightarrow> list_all (\<lambda>e. snd e \<noteq> []) es \<Longrightarrow> good_tables (add_all es out)"
  by (induction es arbitrary: out) (auto simp: good_append_row)

lemma emitted_items_scalars:
  "list_all (\<lambda>kv. \<not> is_container (snd kv)) kvs \<Longrightarrow> emitted_items kvs p = []"
  by (induction kvs) auto

lemma filter_scalars_id:
  "list_all (\<lambda>kv. \<not> is_container (snd kv)) kvs \<Longrightarrow>
   filter (\<lambda>(k, v). \<not> is_container v) kvs = kvs"
  by (induction kvs) auto

lemma emitted_scalar_object:
  assumes "kvs \<noteq> []" "distinct (map fst kvs)" "list_all (\<lambda>kv. \<not> is_container (snd kv)) kvs"
  shows "emitted (JObj kvs) p = [(p, kvs)]"
proof -
  have "build_row kvs [] = kvs"
    using build_row_scalars [of "[]" kvs] assms by (simp add: filter_scalars_id)
  with assms show ?thesis by (simp add: emitted_items_scalars)
qed

text \<open>Claim C1, amended. A non-empty JSON object whose fields are all scalars (its keys distinct,
  as the keys of a dict are) flattens, from the default path \<^verbatim>\<open>root\<close>, to exactly one table,
  \<^verbatim>\<open>root\<close>, with exactly one row, and the row is the object: same keys, same values, same
  order.\<close>

theorem flatten_scalar_object:
  assumes "kvs \<noteq> []" and "distinct (map fst kvs)"
    and "list_all (\<lambda>kv. \<not> is_container (snd kv)) kvs"
  shows "flatten_json (JObj kvs) ''root'' [] = [(''root'', [kvs])]"
  using emitted_scalar_object [OF assms] by (simp add: flatten_emitted(1))

text \<open>The amended claim C1 at the object \<^verbatim>\<open>{"tag": "#ABC", "members": 47}\<close>.\<close>

theorem flatten_scalar_object_witness:
  "flatten_json (JObj [(''tag'', JStr ''#ABC''), (''members'', JInt 47)]) ''root'' [] =
     [(''root'', [[(''tag'', JStr ''#ABC''), (''members'', JInt 47)]])]"
  using flatten_scalar_object [of "[(''tag'', JStr ''#ABC''), (''members'', JInt 47)]"]
  by simp

text \<open>Claim C1 as stated fails at the empty object \<^verbatim>\<open>{}\<close>: all of its fields are scalars,
  and flattening it yields no table at all, since an empty row is not appended.\<close>

theorem flatten_empty_object: "flatten_json (JObj []) ''root'' [] = []"
  by simp

lemma dot_join_Cons: "dot_join p (k # ks) = dot_join (p @ ''.'' @ k) ks"
  by (simp add: dot_join_def)

lemma emitted_key_paths:
  "map fst (emitted v p) = map (dot_join p) (key_paths v)"
  "map fst (emitted_items kvs p) = map (dot_join p) (key_paths_items kvs)"
  "map fst (emitted_list xs p) = map (dot_join p) (key_paths_list xs)"
proof (induction v p and kvs p and xs p rule: emitted_emitted_items_emitted_list.induct)
  case (1 kvs p)
  then show ?case by (simp add: build_row_empty_iff dot_join_def)
next
  case (9 k v kvs p)
  then show ?case by (simp add: dot_join_Cons comp_def)
qed simp_all

lemma nest_container: "is_container (nest ks (JObj fs))"
  by (cases ks) simp_all

lemma emitted_nest:
  "emitted (nest ks (JObj [(k, JStr s)])) p = [(dot_join p ks, [(k, JStr s)])]"
proof (induction ks arbitrary: p)
  case Nil
  then show ?case by (simp add: dot_join_def)
next
  case (Cons a ks)
  then show ?case by (simp add: nest_container dot_join_Cons)
qed

text \<open>Claim C3. For every JSON value and every starting path, the table names that the
  flattener produces are the dot-joined key paths to the objects that hold a scalar field:
  a nested object appends \<^verbatim>\<open>.key\<close>, a list reuses the path of the list. In particular an
  object nested under any chain of keys yields the one table named by the whole chain.\<close>

theorem table_names_are_key_paths:
  "set (map fst (flatten_json v parent_key [])) = set (map (dot_join parent_key) (key_paths v))
   \<and> flatten_json (nest ks (JObj [(k, JStr s)])) parent_key [] =
       [(dot_join parent_key ks, [[(k, JStr s)]])]"
proof
  have "set (map fst (flatten_json v parent_key [])) = set (map fst (emitted v parent_key))"
    by (simp only: flatten_emitted(1) keys_add_all) simp
  then show "set (map fst (flatten_json v parent_key [])) =
      set (map (dot_join parent_key) (key_paths v))"
    by (simp only: emitted_key_paths(1))
  show "flatten_json (nest ks (JObj [(k, JStr s)])) parent_key [] =
       [(dot_join parent_key ks, [[(k, JStr s)]])]"
    by (simp add: flatten_emitted(1) emitted_nest)
qed

lemma df_nonempty:
  "rows \<noteq> [] \<Longrightarrow> list_all (\<lambda>r. r \<noteq> []) rows \<Longrightarrow> \<not> df_empty (DataFrame rows)"
proof -
  have grow: "seen \<noteq> [] \<Longrightarrow> union_keys seen rs \<noteq> []" for seen rs
    by (induction seen rs rule: union_keys.induct) auto
  assume "rows \<noteq> []" "list_all (\<lambda>r. r \<noteq> []) rows"
  then obtain r rs where "rows = r # rs" "r \<noteq> []" by (cases rows) auto
  then show ?thesis
    by (cases r) (auto simp: df_empty_def DataFrame_def grow)
qed

lemma dict_set_all: "list_all P (map snd d) \<Longrightarrow> P v \<Longrightarrow> list_all P (map snd (dict_set d k v))"
  by (induction d) auto

lemma to_dataframes_nonempty:
  "good_tables ts \<Longrightarrow> list_all (\<lambda>df. \<not> df_empty df) (map snd dfs) \<Longrightarrow>
   list_all (\<lambda>df. \<not> df_empty df) (map snd (to_dataframes ts dfs))"
proof (induction ts dfs rule: to_dataframes.induct)
  case (1 dfs)
  then show ?case by simp
next
  case (2 table_name rows ts dfs)
  from "2.prems"(1) have "\<not> df_empty (DataFrame rows)" "good_tables ts"
    by (auto simp: good_tables_def df_nonempty)
  with 2 show ?case by (simp add: dict_set_all)
qed

lemma save_nothing_skipped:
  "list_all (\<lambda>df. \<not> df_empty df) (map snd dfs) \<Longrightarrow>
   skipped (save_tables_to_csv dfs output_dir index wl) = skipped wl"
  by (induction dfs output_dir index wl rule: save_tables_to_csv.induct) auto

lemma good_flatten: "good_tables (flatten_json v p [])"
proof -
  have "good_tables []" by (simp add: good_tables_def)
  then show ?thesis
    by (simp only: flatten_emitted(1) good_add_all emitted_rows_nonempty(1))
qed

text \<open>Claim C9. Every table that the flattener returns has at least one row, every row has at
  least one field, and the writer skips none of these tables.\<close>

theorem flattened_tables_nonempty:
  "list_all (\<lambda>(name, rows). rows \<noteq> [] \<and> list_all (\<lambda>r. r \<noteq> []) rows)
     (flatten_json v parent_key [])
   \<and> skipped (save_tables_to_csv (to_dataframes (flatten_json v parent_key []) [])
                output_dir index \<lparr>saved = [], skipped = []\<rparr>) = []"
proof
  show "list_all (\<lambda>(name, rows). rows \<noteq> [] \<and> list_all (\<lambda>r. r \<noteq> []) rows)
     (flatten_json v parent_key [])"
    using good_flatten [of v parent_key] by (simp add: good_tables_def)
  have "list_all (\<lambda>df. \<not> df_empty df)
          (map snd (to_dataframes (flatten_json v parent_key []) []))"
    by (rule to_dataframes_nonempty [OF good_flatten]) simp
  then show "skipped (save_tables_to_csv (to_dataframes (flatten_json v parent_key []) [])
                output_dir index \<lparr>saved = [], skipped = []\<rparr>) = []"
    by (simp add: save_nothing_skipped)
qed

lemma rows_at_append: "rows_at n (es @ fs) = rows_at n es @ rows_at n fs"
  by (simp add: rows_at_def)

lemma rows_at_none: "n \<notin> set (map fst es) \<Longrightarrow> rows_at n es = []"
  by (induction es) (auto simp: rows_at_def)

lemma emitted_paths:
  "q \<in> set (map fst (emitted v p)) \<Longrightarrow> \<exists>s. q = p @ s \<and> (s = [] \<or> hd s = CHR ''.'')"
  "q \<in> set (map fst (emitted_items kvs p)) \<Longrightarrow>
     \<exists>k v s. (k, v) \<in> set kvs \<and> is_container v \<and> q = p @ ''.'' @ k @ s
       \<and> (s = [] \<or> hd s = CHR ''.'')"
  "q \<in> set (map fst (emitted_list xs p)) \<Longrightarrow> \<exists>s. q = p @ s \<and> (s = [] \<or> hd s = CHR ''.'')"
proof (induction v p and kvs p and xs p rule: emitted_emitted_items_emitted_list.induct)
  case (1 kvs p)
  from "1.prems" consider "q \<in> set (map fst (emitted_items kvs p))" | "q = p"
    by (auto split: if_splits)
  then show ?case
  proof cases
    case 1
    from "1.IH" [OF this] obtain k s where "q = p @ ''.'' @ k @ s" by blast
    then have "q = p @ (''.'' @ k @ s) \<and> hd (''.'' @ k @ s) = CHR ''.''" by simp
    then show ?thesis by blast
  next
    case 2
    then show ?thesis by simp
  qed
next
  case (9 k v kvs p)
  show ?case
  proof (cases "is_container v \<and> q \<in> set (map fst (emitted v (p @ ''.'' @ k)))")
    case True
    with "9.IH"(1) obtain s where "q = (p @ ''.'' @ k) @ s" "s = [] \<or> hd s = CHR ''.''"
      by blast
    with True show ?thesis by auto
  next
    case False
    with "9.prems" have "q \<in> set (map fst (emitted_items kvs p))"
      by (auto split: if_splits)
    from "9.IH"(2) [OF this] show ?thesis by auto
  qed
next
  case (11 x xs p)
  then show ?case by auto
qed simp_all


lemma no_row_for_other_field:
  assumes "is_container v" and "k \<noteq> field" and "\<not> starts_with (k @ ''.'') field"
  shows "rows_at (p @ ''.'' @ field) (emitted v (p @ ''.'' @ k)) = []"
proof (rule rows_at_none, rule notI)
  assume "p @ ''.'' @ field \<in> set (map fst (emitted v (p @ ''.'' @ k)))"
  from emitted_paths(1) [OF this] obtain s
    where eq: "p @ ''.'' @ field = (p @ ''.'' @ k) @ s" and s: "s = [] \<or> hd s = CHR ''.''"
    by blast
  from eq have f: "field = k @ s" by simp
  show False
  proof (cases s)
    case Nil
    with f assms(2) show False by simp
  next
    case (Cons c t)
    with s have "c = CHR ''.''" by simp
    with Cons f have "field = (k @ ''.'') @ t" by simp
    then have "starts_with (k @ ''.'') field" by (simp add: starts_with_def)
    with assms(3) show False by simp
  qed
qed

lemma no_rows_without_field:
  assumes "field \<notin> set (map fst kvs)" and "no_clash field kvs"
  shows "rows_at (p @ ''.'' @ field) (emitted_items kvs p) = []"
  using assms
proof (induction kvs)
  case Nil
  then show ?case by (simp add: rows_at_def)
next
  case (Cons kv kvs)
  obtain k v where kv: "kv = (k, v)" by (cases kv)
  from Cons.prems kv have rest: "field \<notin> set (map fst kvs)" "no_clash field kvs"
    and k: "k \<noteq> field" and c: "is_container v \<longrightarrow> \<not> starts_with (k @ ''.'') field"
    by (auto simp: no_clash_def)
  have "rows_at (p @ ''.'' @ field) (if is_container v then emitted v (p @ ''.'' @ k) else []) = []"
    using no_row_for_other_field [of v k field p] k c by (simp add: rows_at_def)
  with Cons.IH [OF rest] kv show ?case
    by (simp only: emitted_items.simps rows_at_append) simp
qed

lemma emitted_scalar_objects:
  "list_all scalar_object elems \<Longrightarrow>
   emitted_list elems q = map (\<lambda>e. (q, fields e)) elems"
proof (induction elems)
  case Nil
  then show ?case by simp
next
  case (Cons e elems)
  from Cons.prems obtain fs where e: "e = JObj fs" and fs: "fs \<noteq> []" "distinct (map fst fs)"
    "list_all (\<lambda>kv. \<not> is_container (snd kv)) fs"
    by (cases e) auto
  from fs have "emitted (JObj fs) q = [(q, fs)]" by (rule emitted_scalar_object)
  with Cons e show ?case by (simp del: emitted.simps)
qed

lemma rows_at_same: "rows_at q (map (\<lambda>e. (q, f e)) xs) = map f xs"
  by (induction xs) (simp_all add: rows_at_def)

lemma rows_of_array_field:
  assumes "distinct (map fst kvs)" and "(field, JArr elems) \<in> set kvs"
    and "list_all scalar_object elems" and "no_clash field kvs"
  shows "rows_at (p @ ''.'' @ field) (emitted_items kvs p) = map fields elems"
  using assms(1,2,4)
proof (induction kvs)
  case Nil
  then show ?case by simp
next
  case (Cons kv kvs)
  obtain k v where kv: "kv = (k, v)" by (cases kv)
  show ?case
  proof (cases "k = field")
    case True
    with Cons.prems(1,2) kv have v: "v = JArr elems" and fresh: "field \<notin> set (map fst kvs)"
      by (auto simp: image_iff)
    from Cons.prems(3) have "no_clash field kvs" by (simp add: no_clash_def)
    from no_rows_without_field [OF fresh this]
    have rest: "rows_at (p @ ''.'' @ field) (emitted_items kvs p) = []" .
    have "rows_at (p @ ''.'' @ field) (emitted v (p @ ''.'' @ k)) = map fields elems"
      using True v assms(3) by (simp add: emitted_scalar_objects rows_at_same)
    with rest kv v show ?thesis
      by (simp only: emitted_items.simps rows_at_append is_container.simps if_True) simp
  next
    case False
    with Cons.prems kv have mem: "(field, JArr elems) \<in> set kvs"
      and d: "distinct (map fst kvs)" and nc: "no_clash field kvs"
      and c: "is_container v \<longrightarrow> \<not> starts_with (k @ ''.'') field"
      by (auto simp: no_clash_def)
    have "rows_at (p @ ''.'' @ field) (if is_container v then emitted v (p @ ''.'' @ k) else []) = []"
      using no_row_for_other_field [of v k field p] False c by (simp add: rows_at_def)
    with Cons.IH [OF d mem nc] kv show ?thesis
      by (simp only: emitted_items.simps rows_at_append) simp
  qed
qed

lemma no_rows_at_parent: "rows_at p (emitted_items kvs p) = []"
proof (rule rows_at_none, rule notI)
  assume "p \<in> set (map fst (emitted_items kvs p))"
  from emitted_paths(2) [OF this] obtain k s where "p = p @ ''.'' @ k @ s" by blast
  then show False by simp
qed

lemma map_of_flatten:
  "map_of (flatten_json v p []) n =
     (if rows_at n (emitted v p) = [] then None else Some (rows_at n (emitted v p)))"
  by (simp add: flatten_emitted(1) map_of_add_all bucket_def)

text \<open>Claim C2, amended. Let an object (its keys distinct, as the keys of a dict are) hold, under
  \<open>field\<close>, a list of \<open>N\<close> non-empty objects with scalar fields only, and let no other
  nested field clash with the path of \<open>field\<close>. Then the table \<^verbatim>\<open>root.field\<close> holds exactly
  the \<open>N\<close> elements as its rows, in the order of the list (there is no such table when
  \<open>N = 0\<close>), and the table \<^verbatim>\<open>root\<close> holds one row, the scalar fields of the object in their
  order, when there is any (and does not exist otherwise).\<close>

theorem array_field_becomes_table:
  assumes "distinct (map fst kvs)" and "(field, JArr elems) \<in> set kvs"
    and "list_all scalar_object elems" and "no_clash field kvs"
  shows "map_of (flatten_json (JObj kvs) ''root'' []) (''root.'' @ field) =
           (if elems = [] then None else Some (map fields elems))
         \<and> map_of (flatten_json (JObj kvs) ''root'' []) ''root'' =
           (if filter (\<lambda>(k, v). \<not> is_container v) kvs = [] then None
            else Some [filter (\<lambda>(k, v). \<not> is_container v) kvs])"
proof -
  let ?row = "filter (\<lambda>(k, v). \<not> is_container v) kvs"
  have row: "build_row kvs [] = ?row"
    using build_row_scalars [of "[]" kvs] assms(1) by simp
  have em: "emitted (JObj kvs) ''root'' =
      emitted_items kvs ''root'' @ (if ?row \<noteq> [] then [(''root'', ?row)] else [])"
    by (simp only: emitted.simps row)
  have a: "rows_at (''root.'' @ field) (emitted (JObj kvs) ''root'') = map fields elems"
    unfolding em rows_at_append
    using rows_of_array_field [OF assms, of "''root''"]
    by (simp add: rows_at_def)
  have b: "rows_at ''root'' (emitted (JObj kvs) ''root'') = (if ?row \<noteq> [] then [?row] else [])"
    unfolding em rows_at_append
    using no_rows_at_parent [of "''root''" kvs]
    by (simp add: rows_at_def)
  show ?thesis
    by (simp only: map_of_flatten a b) simp
qed

text \<open>The amended claim C2 at an object with two scalar fields, a list of two members and a
  nested object.\<close>

theorem array_field_becomes_table_witness:
  "map_of (flatten_json (JObj [(''tag'', JStr ''#ABC''),
       (''memberList'', JArr [JObj [(''name'', JStr ''a''), (''role'', JStr ''member'')],
                               JObj [(''name'', JStr ''b''), (''role'', JStr ''elder'')]]),
       (''location'', JObj [(''id'', JInt 5)]), (''members'', JInt 2)]) ''root'' [])
     ''root.memberList'' =
     Some [[(''name'', JStr ''a''), (''role'', JStr ''member'')],
           [(''name'', JStr ''b''), (''role'', JStr ''elder'')]]
   \<and> map_of (flatten_json (JObj [(''tag'', JStr ''#ABC''),
       (''memberList'', JArr [JObj [(''name'', JStr ''a''), (''role'', JStr ''member'')],
                               JObj [(''name'', JStr ''b''), (''role'', JStr ''elder'')]]),
       (''location'', JObj [(''id'', JInt 5)]), (''members'', JInt 2)]) ''root'' [])
     ''root'' = Some [[(''tag'', JStr ''#ABC''), (''members'', JInt 2)]]"
  using array_field_becomes_table [of
      "[(''tag'', JStr ''#ABC''),
       (''memberList'', JArr [JObj [(''name'', JStr ''a''), (''role'', JStr ''member'')],
                               JObj [(''name'', JStr ''b''), (''role'', JStr ''elder'')]]),
       (''location'', JObj [(''id'', JInt 5)]), (''members'', JInt 2)]"
      "''memberList''"
      "[JObj [(''name'', JStr ''a''), (''role'', JStr ''member'')],
        JObj [(''name'', JStr ''b''), (''role'', JStr ''elder'')]]"]
  by (simp add: no_clash_def starts_with_def)

text \<open>Claim C2 as stated fails: a list holding the one empty object yields no table at all, and
  a field whose key contains a dot shares its table with a nested field, so the table of a
  list of one element has two rows.\<close>

theorem array_field_table_counterexample:
  "flatten_json (JObj [(''items'', JArr [JObj []])]) ''root'' [] = []
   \<and> flatten_json (JObj [(''a.b'', JArr [JObj [(''x'', JInt 1)]]),
                          (''a'', JObj [(''b'', JObj [(''y'', JInt 2)])])]) ''root'' [] =
       [(''root.a.b'', [[(''x'', JInt 1)], [(''y'', JInt 2)]])]"
  by simp

section \<open>Properties of the fetcher and the writer\<close>

lemma upto_1_5: "[1..5::int] = [1, 2, 3, 4, 5]"
  by code_simp

lemma upto_from_1: "1 \<le> m \<Longrightarrow> [1..m::int] = 1 # [2..m]"
  by (simp add: upto_rec1)

lemma upto_3: "3 \<le> m \<Longrightarrow> [1..m::int] = 1 # 2 # 3 # [4..m]"
  by (simp add: upto_rec1)

lemma to_dataframes_map:
  "distinct (map fst dfs @ map fst ts) \<Longrightarrow>
   to_dataframes ts dfs = dfs @ map (\<lambda>(n, rows). (n, DataFrame rows)) ts"
proof (induction ts dfs rule: to_dataframes.induct)
  case (1 dfs)
  then show ?case by simp
next
  case (2 table_name rows ts dfs)
  from "2.prems" have fresh: "table_name \<notin> set (map fst dfs)" by auto
  then have step: "dict_set dfs table_name (DataFrame rows) = dfs @ [(table_name, DataFrame rows)]"
    by (rule dict_set_fresh)
  from "2.prems" have "distinct (map fst (dfs @ [(table_name, DataFrame rows)]) @ map fst ts)"
    by auto
  with "2.IH" step show ?case by simp
qed

lemma distinct_flatten: "distinct (map fst (flatten_json v p []))"
  by (simp add: flatten_emitted(1) distinct_add_all)

lemma to_dataframes_flatten:
  "to_dataframes (flatten_json v p []) [] =
     map (\<lambda>(n, rows). (n, DataFrame rows)) (flatten_json v p [])"
  using to_dataframes_map [of "[]" "flatten_json v p []"] distinct_flatten [of v p] by simp

text \<open>Claim C10. When the module-level \<^verbatim>\<open>USER_TAG\<close> is unset, the fetcher raises, for every
  clan tag and credential, before any request is issued and before any sleep: the world is
  returned unchanged. When it is set, its value has no effect on the result.\<close>

theorem unset_user_tag_raises:
  "fetch_clan_data_auto_tables pf None clan_tag api_token max_retries backoff_factor tmo net w =
     (Inl AttributeError, w)
   \<and> fetch_clan_data_auto_tables pf (Some u1) clan_tag api_token max_retries backoff_factor tmo
       net w =
     fetch_clan_data_auto_tables pf (Some u2) clan_tag api_token max_retries backoff_factor tmo
       net w"
  by (simp add: fetch_clan_data_auto_tables_def)

text \<open>Claim C6. When the response to a request has a status that is not 200, not 429 and below
  500, the fetcher raises at once: the request is the last one, nothing is slept, and the
  error message carries the status code and the first 300 characters of the response body
  at most. This holds for a call of the fetcher (a user tag set, at least one attempt
  allowed) and for the retry loop at any later attempt.\<close>

theorem hard_fail_immediate:
  assumes "net (length (calls w)) = Inr response"
    and "status_code response \<noteq> 200" and "status_code response \<noteq> 429"
    and "status_code response < 500"
    and "1 \<le> max_retries"
  shows "fetch_clan_data_auto_tables pf (Some user_tag) clan_tag api_token max_retries
           backoff_factor tmo net w =
         (Inl (RuntimeError (''HTTP '' @ str_int (status_code response) @ '': '' @
                 take 300 (resp_text response))),
          w\<lparr>calls := calls w @ [\<lparr>url = clan_url pf clan_tag, headers = auth_headers api_token,
                      timeout = tmo\<rparr>]\<rparr>)
         \<and> attempt_loop pf net req backoff_factor (attempt # rest) w =
         (Inl (RuntimeError (''HTTP '' @ str_int (status_code response) @ '': '' @
                 take 300 (resp_text response))),
          w\<lparr>calls := calls w @ [req]\<rparr>)
         \<and> length (take 300 (resp_text response)) \<le> 300"
  using assms
  by (simp add: fetch_clan_data_auto_tables_def upto_from_1 attempt_body_def)

lemma retry_step:
  assumes "net n = Inr r" and "length cs = n"
    and "status_code r = 429 \<or> 500 \<le> status_code r"
    and "float_pow pf backoff_factor attempt = Inr wait"
    and "sleep_error pf wait = None"
  shows "attempt_body pf net req backoff_factor attempt \<lparr>calls = cs, sleeps = sl\<rparr> =
           (Continue, \<lparr>calls = cs @ [req], sleeps = sl @ [wait]\<rparr>)"
  using assms
  by (auto simp: attempt_body_def sleep_and_continue_def time_sleep_def)

lemma success_step:
  assumes "net n = Inr r" and "length cs = n"
    and "status_code r = 200" and "json_body r = Inr data"
  shows "attempt_body pf net req backoff_factor attempt \<lparr>calls = cs, sleeps = sl\<rparr> =
           (Return (to_dataframes (flatten_json data ''root'' []) []),
            \<lparr>calls = cs @ [req], sleeps = sl\<rparr>)"
  using assms by (simp add: attempt_body_def)

text \<open>
  A power that overflows, or a wait that \<^verbatim>\<open>time.sleep\<close> refuses, ends the call with that
  exception after the request of the attempt: nothing more is requested or slept.
\<close>

lemma wait_error_propagates:
  assumes "net (length (calls w)) = Inr r"
    and "status_code r = 429 \<or> 500 \<le> status_code r"
    and "float_pow pf backoff_factor attempt = Inl e
         \<or> (\<exists>wait. float_pow pf backoff_factor attempt = Inr wait
                \<and> sleep_error pf wait = Some e)"
  shows "attempt_loop pf net req backoff_factor (attempt # rest) w =
           (Inl e, w\<lparr>calls := calls w @ [req]\<rparr>)"
  using assms
  by (auto simp: attempt_body_def sleep_and_continue_def time_sleep_def)

text \<open>Claim C5. On the responses 429, 429, 200 (a user tag set, at least three attempts
  allowed) and for a backoff factor whose powers \<^verbatim>\<open>backoff_factor ** 1\<close> and
  \<^verbatim>\<open>backoff_factor ** 2\<close> are computed and accepted by \<^verbatim>\<open>time.sleep\<close> (as those of the default
  1.5 are), the fetcher issues three requests, sleeps exactly twice, for these two powers
  in this order, and returns the tables of the flattened body of the third response. The
  second wait is the longer one for every factor above 1, that is from the next double
  \<^verbatim>\<open>1 + 2 ** -52\<close> on, when the first power is the factor itself and the second power is
  the square up to the relative rounding error \<^verbatim>\<open>2 ** -53\<close> of a double, in particular when
  both powers are exact.\<close>

theorem rate_limited_twice_then_ok:
  assumes "net 0 = Inr r0" and "status_code r0 = 429"
    and "net 1 = Inr r1" and "status_code r1 = 429"
    and "net 2 = Inr r2" and "status_code r2 = 200" and "json_body r2 = Inr data"
    and "3 \<le> max_retries"
    and "float_pow pf backoff_factor 1 = Inr w1" and "sleep_error pf w1 = None"
    and "float_pow pf backoff_factor 2 = Inr w2" and "sleep_error pf w2 = None"
  shows "fetch_clan_data_auto_tables pf (Some user_tag) clan_tag api_token max_retries
           backoff_factor tmo net world0 =
         (Inr (map (\<lambda>(name, rows). (name, DataFrame rows)) (flatten_json data ''root'' [])),
          \<lparr>calls = replicate 3 \<lparr>url = clan_url pf clan_tag, headers = auth_headers api_token,
                      timeout = tmo\<rparr>,
            sleeps = [w1, w2]\<rparr>)
         \<and> (w1 = backoff_factor \<and> 1 + 1 / 2 ^ 52 \<le> backoff_factor
              \<and> backoff_factor ^ 2 * (1 - 1 / 2 ^ 53) \<le> w2
              \<longrightarrow> w1 < w2)"
proof
  let ?req = "\<lparr>url = clan_url pf clan_tag, headers = auth_headers api_token, timeout = tmo\<rparr>"
  let ?b = backoff_factor
  have b1: "attempt_body pf net ?req ?b 1 \<lparr>calls = [], sleeps = []\<rparr> =
      (Continue, \<lparr>calls = [] @ [?req], sleeps = [] @ [w1]\<rparr>)"
    by (rule retry_step [of net 0 r0]) (use assms in simp_all)
  have b2: "attempt_body pf net ?req ?b 2 \<lparr>calls = [?req], sleeps = [w1]\<rparr> =
      (Continue, \<lparr>calls = [?req] @ [?req], sleeps = [w1] @ [w2]\<rparr>)"
    by (rule retry_step [of net 1 r1]) (use assms in simp_all)
  have b3: "attempt_body pf net ?req ?b 3 \<lparr>calls = [?req, ?req], sleeps = [w1, w2]\<rparr> =
      (Return (to_dataframes (flatten_json data ''root'' []) []),
       \<lparr>calls = [?req, ?req] @ [?req], sleeps = [w1, w2]\<rparr>)"
    by (rule success_step [of net 2 r2]) (use assms in simp_all)
  have rep: "replicate 3 ?req = [?req, ?req, ?req]"
    by (simp add: numeral_3_eq_3)
  show "fetch_clan_data_auto_tables pf (Some user_tag) clan_tag api_token max_retries
           backoff_factor tmo net world0 =
         (Inr (map (\<lambda>(name, rows). (name, DataFrame rows)) (flatten_json data ''root'' [])),
          \<lparr>calls = replicate 3 ?req, sleeps = [w1, w2]\<rparr>)"
    unfolding fetch_clan_data_auto_tables_def world0_def upto_3 [OF assms(8)] rep
    by (simp only: option.case Let_def attempt_loop.simps b1 b2 b3 prod.case outcome.case
        to_dataframes_flatten append.simps)
  show "w1 = backoff_factor \<and> 1 + 1 / 2 ^ 52 \<le> backoff_factor
          \<and> backoff_factor ^ 2 * (1 - 1 / 2 ^ 53) \<le> w2
          \<longrightarrow> w1 < w2"
  proof (intro impI, elim conjE)
    assume w1: "w1 = backoff_factor" and lo: "1 + 1 / 2 ^ 52 \<le> backoff_factor"
      and w2: "backoff_factor ^ 2 * (1 - 1 / 2 ^ 53) \<le> w2"
    have pos: "0 < backoff_factor" using lo by (simp add: add_pos_nonneg less_le_trans)
    have "(1::real) < (1 + 1 / 2 ^ 52) * (1 - 1 / 2 ^ 53)" by simp
    also have "\<dots> \<le> backoff_factor * (1 - 1 / 2 ^ 53)"
      using lo by (intro mult_right_mono) simp_all
    finally have "backoff_factor * 1 < backoff_factor * (backoff_factor * (1 - 1 / 2 ^ 53))"
      using pos by (intro mult_strict_left_mono)
    then have "backoff_factor < backoff_factor ^ 2 * (1 - 1 / 2 ^ 53)"
      by (simp add: power2_eq_square mult.assoc)
    with w1 w2 show "w1 < w2" by simp
  qed
qed

text \<open>Claim C7. On five responses with status 500 and the default ceiling of 5 attempts, for
  a backoff factor whose five powers are computed and accepted by \<^verbatim>\<open>time.sleep\<close> (as those
  of the default 1.5 are), the fetcher issues exactly five requests, sleeps after each of
  them, returns no result and raises the error of the exhausted retries (a user tag
  set).\<close>

theorem server_errors_exhaust_retries:
  assumes "\<And>n. n < 5 \<Longrightarrow> net n = Inr (rs n)"
    and "\<And>n. n < 5 \<Longrightarrow> status_code (rs n) = 500"
    and "\<And>k. 1 \<le> k \<Longrightarrow> k \<le> 5 \<Longrightarrow> float_pow pf backoff_factor k = Inr (ws k)"
    and "\<And>k. 1 \<le> k \<Longrightarrow> k \<le> 5 \<Longrightarrow> sleep_error pf (ws k) = None"
  shows "fetch_clan_data_auto_tables pf (Some user_tag) clan_tag api_token 5
           backoff_factor tmo net world0 =
         (Inl (RuntimeError ''Max retries exceeded while fetching clan data''),
          \<lparr>calls = replicate 5 \<lparr>url = clan_url pf clan_tag, headers = auth_headers api_token,
                      timeout = tmo\<rparr>,
            sleeps = [ws 1, ws 2, ws 3, ws 4, ws 5]\<rparr>)"
proof -
  let ?req = "\<lparr>url = clan_url pf clan_tag, headers = auth_headers api_token, timeout = tmo\<rparr>"
  let ?b = backoff_factor
  have step: "attempt_body pf net ?req ?b a \<lparr>calls = cs, sleeps = sl\<rparr> =
      (Continue, \<lparr>calls = cs @ [?req], sleeps = sl @ [ws a]\<rparr>)"
    if "length cs < 5" and "1 \<le> a" and "a \<le> 5" for a cs sl
    by (rule retry_step [of net "length cs" "rs (length cs)"]) (simp_all add: assms that)
  have b1: "attempt_body pf net ?req ?b 1 \<lparr>calls = [], sleeps = []\<rparr> =
      (Continue, \<lparr>calls = [?req], sleeps = [ws 1]\<rparr>)"
    using step [of "[]" 1 "[]"] by simp
  have b2: "attempt_body pf net ?req ?b 2 \<lparr>calls = [?req], sleeps = [ws 1]\<rparr> =
      (Continue, \<lparr>calls = [?req, ?req], sleeps = [ws 1, ws 2]\<rparr>)"
    using step [of "[?req]" 2 "[ws 1]"] by simp
  have b3: "attempt_body pf net ?req ?b 3 \<lparr>calls = [?req, ?req], sleeps = [ws 1, ws 2]\<rparr> =
      (Continue, \<lparr>calls = [?req, ?req, ?req], sleeps = [ws 1, ws 2, ws 3]\<rparr>)"
    using step [of "[?req, ?req]" 3 "[ws 1, ws 2]"] by simp
  have b4: "attempt_body pf net ?req ?b 4
        \<lparr>calls = [?req, ?req, ?req], sleeps = [ws 1, ws 2, ws 3]\<rparr> =
      (Continue, \<lparr>calls = [?req, ?req, ?req, ?req], sleeps = [ws 1, ws 2, ws 3, ws 4]\<rparr>)"
    using step [of "[?req, ?req, ?req]" 4 "[ws 1, ws 2, ws 3]"] by simp
  have b5: "attempt_body pf net ?req ?b 5
        \<lparr>calls = [?req, ?req, ?req, ?req], sleeps = [ws 1, ws 2, ws 3, ws 4]\<rparr> =
      (Continue, \<lparr>calls = [?req, ?req, ?req, ?req, ?req],
                  sleeps = [ws 1, ws 2, ws 3, ws 4, ws 5]\<rparr>)"
    using step [of "[?req, ?req, ?req, ?req]" 5 "[ws 1, ws 2, ws 3, ws 4]"] by simp
  have rep: "replicate 5 ?req = [?req, ?req, ?req, ?req, ?req]"
    by (simp add: numeral_eq_Suc)
  show ?thesis
    unfolding fetch_clan_data_auto_tables_def world0_def upto_1_5 rep
    by (simp only: option.case Let_def attempt_loop.simps b1 b2 b3 b4 b5 prod.case
        outcome.case)
qed

lemma class_chars:
  "list_ex (\<lambda>i. class_item_matches i c)
     [Range CHR ''a'' CHR ''z'', Range CHR ''A'' CHR ''Z'', Range CHR ''0'' CHR ''9'',
      Single CHR ''_'', Single CHR ''.'', Single CHR ''-''] =
   (c \<in> set ''abcdefghijklmnopqrstuvwxyzABCDEFGHIJKLMNOPQRSTUVWXYZ0123456789_.-'')"
  by (cases c) (simp, blast?)

lemma re_sub_single:
  "re_sub_negated_class items [r] s =
     map (\<lambda>c. if list_ex (\<lambda>i. class_item_matches i c) items then c else r) s"
  by (induction s) simp_all

text \<open>Claim C8. The file name of a table is its name with every character outside
  \<^verbatim>\<open>[A-Za-z0-9_.-]\<close> replaced by an underscore and every other character kept; it is a
  function of the name alone.\<close>

theorem safe_name_replaces_unsafe_chars:
  "safe_name table_name =
     map (\<lambda>c. if c \<in> set ''abcdefghijklmnopqrstuvwxyzABCDEFGHIJKLMNOPQRSTUVWXYZ0123456789_.-''
               then c else CHR ''_'') table_name
   \<and> length (safe_name table_name) = length table_name
   \<and> safe_name ''root.a#b'' = ''root.a_b''"
proof -
  have eq: "safe_name table_name =
     map (\<lambda>c. if c \<in> set ''abcdefghijklmnopqrstuvwxyzABCDEFGHIJKLMNOPQRSTUVWXYZ0123456789_.-''
               then c else CHR ''_'') table_name"
    unfolding safe_name_def re_sub_single class_chars ..
  have ex: "safe_name ''root.a#b'' = ''root.a_b''"
    by code_simp
  from eq ex show ?thesis by simp
qed

lemma attempt_body_calls:
  "calls (snd (attempt_body pf net req bf a w)) = calls w @ [req]"
  by (simp add: attempt_body_def sleep_and_continue_def time_sleep_def Let_def
      split: sum.splits option.splits)

lemma attempt_loop_calls:
  "set (calls (snd (attempt_loop pf net req bf as w))) \<subseteq> set (calls w) \<union> {req}"
proof (induction as arbitrary: w)
  case Nil
  then show ?case by auto
next
  case (Cons a as)
  obtain oc w' where b: "attempt_body pf net req bf a w = (oc, w')"
    by (cases "attempt_body pf net req bf a w")
  have c: "calls w' = calls w @ [req]"
    using attempt_body_calls [of pf net req bf a w] b by simp
  show ?case
  proof (cases oc)
    case Continue
    with b c Cons.IH [of w'] show ?thesis by auto
  next
    case (Return dfs)
    with b c show ?thesis by auto
  next
    case (Raise e)
    with b c show ?thesis by auto
  qed
qed

lemma filter_ascii: "list_all is_ascii s \<Longrightarrow> list_all is_ascii (filter P s)"
  by (induction s) auto

text \<open>Claim C4, amended. The request URL is the fixed clan-lookup prefix followed by the clan tag
  with every \<^verbatim>\<open>#\<close> removed, wherever it stands, and then upper-cased by \<^verbatim>\<open>str.upper()\<close>;
  nothing else is encoded, and every request that the fetcher issues carries this URL. For
  an ASCII tag (on a platform whose \<^verbatim>\<open>str.upper()\<close> turns \<open>a\<close> to \<open>z\<close> into \<open>A\<close> to \<open>Z\<close> and
  keeps every other ASCII character, as Python's does) every character other than \<^verbatim>\<open>#\<close> is
  therefore preserved apart from the case of its letters.\<close>

theorem clan_url_removes_every_hash:
  "clan_url pf clan_tag =
     ''https://api.clashroyale.com/v1/clans/%23'' @
       str_upper pf (filter (\<lambda>c. c \<noteq> CHR ''#'') clan_tag)
   \<and> set (map url (calls (snd (fetch_clan_data_auto_tables pf user_tag clan_tag api_token
            max_retries backoff_factor tmo net world0)))) \<subseteq> {clan_url pf clan_tag}
   \<and> (list_all is_ascii clan_tag
        \<and> (\<forall>s. list_all is_ascii s \<longrightarrow> str_upper pf s = map char_upper s)
      \<longrightarrow> clan_url pf clan_tag =
            ''https://api.clashroyale.com/v1/clans/%23'' @
              map char_upper (filter (\<lambda>c. c \<noteq> CHR ''#'') clan_tag))"
proof -
  have "str_replace CHR ''#'' [] s = filter (\<lambda>c. c \<noteq> CHR ''#'') s" for s
    by (induction s) (simp_all add: str_replace_def)
  then have u: "clan_url pf clan_tag =
     ''https://api.clashroyale.com/v1/clans/%23'' @
       str_upper pf (filter (\<lambda>c. c \<noteq> CHR ''#'') clan_tag)"
    by (simp add: clan_url_def)
  have c: "set (map url (calls (snd (fetch_clan_data_auto_tables pf user_tag clan_tag api_token
            max_retries backoff_factor tmo net world0)))) \<subseteq> {clan_url pf clan_tag}"
  proof (cases user_tag)
    case None
    then show ?thesis by (simp add: fetch_clan_data_auto_tables_def world0_def)
  next
    case (Some u)
    let ?req = "\<lparr>url = clan_url pf clan_tag, headers = auth_headers api_token, timeout = tmo\<rparr>"
    have "set (calls (snd (attempt_loop pf net ?req backoff_factor [1..max_retries] world0)))
            \<subseteq> {?req}"
      using attempt_loop_calls [of pf net ?req backoff_factor "[1..max_retries]" world0]
      by (simp add: world0_def)
    then have "url ` set (calls (snd (attempt_loop pf net ?req backoff_factor
                  [1..max_retries] world0))) \<subseteq> url ` {?req}"
      by (rule image_mono)
    with Some show ?thesis by (simp add: fetch_clan_data_auto_tables_def)
  qed
  have a: "clan_url pf clan_tag =
            ''https://api.clashroyale.com/v1/clans/%23'' @
              map char_upper (filter (\<lambda>c. c \<noteq> CHR ''#'') clan_tag)"
    if "list_all is_ascii clan_tag"
      and "\<forall>s. list_all is_ascii s \<longrightarrow> str_upper pf s = map char_upper s"
    using that filter_ascii [of clan_tag "\<lambda>c. c \<noteq> CHR ''#''"] u by simp
  from u c a show ?thesis by blast
qed

text \<open>The amended claim C4 at the tag \<^verbatim>\<open>#2pyl\<close>.\<close>

theorem clan_url_removes_every_hash_witness:
  "list_all is_ascii ''#2pyl''
   \<and> clan_url default_platform ''#2pyl'' = ''https://api.clashroyale.com/v1/clans/%232PYL''"
proof -
  have a: "list_all is_ascii ''#2pyl''" by (simp add: is_ascii_def)
  have b: "\<forall>s. list_all is_ascii s \<longrightarrow> str_upper default_platform s = map char_upper s"
    by (simp add: default_platform_def)
  have c: "map char_upper (filter (\<lambda>c. c \<noteq> CHR ''#'') ''#2pyl'') = ''2PYL''"
    by (simp add: char_upper_def char_of_def bit_0)
  show ?thesis
    using clan_url_removes_every_hash [of default_platform "''#2pyl''"] a b c by simp
qed

text \<open>Claim C4 as stated fails at the tag \<^verbatim>\<open>2P#0y\<close>: the \<^verbatim>\<open>#\<close> is not leading, and it is not
  preserved.\<close>

theorem clan_url_interior_hash:
  "clan_url default_platform ''2P#0y'' = ''https://api.clashroyale.com/v1/clans/%232P0Y''"
  by (simp add: clan_url_def default_platform_def str_replace_def char_upper_def char_of_def
      bit_0 is_ascii_def)

text \<open>Claim C6 at a 404 response.\<close>

theorem hard_fail_immediate_witness:
  "fetch_clan_data_auto_tables default_platform (Some ''#U1'') ''#abc'' ''tok'' 5 (3 / 2) 30
     (\<lambda>n. Inr \<lparr>status_code = 404, resp_text = ''not found'', json_body = Inr JNull\<rparr>) world0 =
   (Inl (RuntimeError ''HTTP 404: not found''),
    \<lparr>calls = [\<lparr>url = ''https://api.clashroyale.com/v1/clans/%23ABC'',
                headers = [(''Authorization'', ''Bearer tok''), (''Accept'', ''application/json'')],
                timeout = 30\<rparr>],
      sleeps = []\<rparr>)"
proof -
  have s: "str_int 404 = ''404''" by code_simp
  have u: "clan_url default_platform ''#abc'' = ''https://api.clashroyale.com/v1/clans/%23ABC''"
    by (simp add: clan_url_def default_platform_def str_replace_def char_upper_def char_of_def
        bit_0 is_ascii_def)
  show ?thesis
    using hard_fail_immediate [of
        "\<lambda>n. Inr \<lparr>status_code = 404, resp_text = ''not found'', json_body = Inr JNull\<rparr>"
        world0
        "\<lparr>status_code = 404, resp_text = ''not found'', json_body = Inr JNull\<rparr>"
        5 default_platform "''#U1''" "''#abc''" "''tok''" "3 / 2" 30]
    by (simp add: s u auth_headers_def world0_def)
qed

text \<open>Claim C7 at five 500 responses and the default factor 1.5, whose powers are slept in
  turn.\<close>

theorem server_errors_exhaust_retries_witness:
  "fetch_clan_data_auto_tables default_platform (Some ''#U1'') ''#abc'' ''tok'' 5 (3 / 2) 30
     (\<lambda>n. Inr \<lparr>status_code = 500, resp_text = ''oops'', json_body = Inr JNull\<rparr>) world0 =
   (Inl (RuntimeError ''Max retries exceeded while fetching clan data''),
    \<lparr>calls = replicate 5 \<lparr>url = clan_url default_platform ''#abc'',
                           headers = auth_headers ''tok'', timeout = 30\<rparr>,
      sleeps = [3 / 2, 9 / 4, 27 / 8, 81 / 16, 243 / 32]\<rparr>)"
proof -
  have p: "float_pow default_platform (3 / 2) k = Inr ((3 / 2) ^ nat k)"
    if "1 \<le> k" "k \<le> 5" for k
    using that by (simp add: default_platform_def)
  have q: "sleep_error default_platform ((3 / 2) ^ nat k) = None" if "1 \<le> k" "k \<le> 5" for k
  proof -
    from that have "k = 1 \<or> k = 2 \<or> k = 3 \<or> k = 4 \<or> k = 5" by arith
    then show ?thesis
      by (auto simp: default_platform_def power_divide numeral_eq_Suc)
  qed
  show ?thesis
    using server_errors_exhaust_retries [of
      "\<lambda>n. Inr \<lparr>status_code = 500, resp_text = ''oops'', json_body = Inr JNull\<rparr>"
      "\<lambda>n. \<lparr>status_code = 500, resp_text = ''oops'', json_body = Inr JNull\<rparr>"
      default_platform "3 / 2" "\<lambda>k. (3 / 2) ^ nat k" "''#U1''" "''#abc''" "''tok''" 30] p q
    by (simp add: power_divide)
qed

text \<open>Claim C5 at the default factor 1.5 and a body with one nested list.\<close>

theorem rate_limited_twice_then_ok_witness:
  "fetch_clan_data_auto_tables default_platform (Some ''#U1'') ''#abc'' ''tok'' 5 (3 / 2) 30
     (\<lambda>n. Inr \<lparr>status_code = (if n < 2 then 429 else 200), resp_text = ''body'',
                json_body = Inr (JObj [(''tag'', JStr ''#ABC''),
                   (''memberList'', JArr [JObj [(''name'', JStr ''a'')],
                                           JObj [(''name'', JStr ''b'')]])])\<rparr>) world0 =
   (Inr [(''root.memberList'',
            \<lparr>columns = [''name''],
               records = [[(''name'', JStr ''a'')], [(''name'', JStr ''b'')]]\<rparr>),
         (''root'', \<lparr>columns = [''tag''], records = [[(''tag'', JStr ''#ABC'')]]\<rparr>)],
    \<lparr>calls = replicate 3 \<lparr>url = clan_url default_platform ''#abc'',
                           headers = auth_headers ''tok'', timeout = 30\<rparr>,
      sleeps = [3 / 2, 9 / 4]\<rparr>)
   \<and> (1 + 1 / 2 ^ 52 :: real) \<le> 3 / 2 \<and> (3 / 2 :: real) ^ 2 * (1 - 1 / 2 ^ 53) \<le> 9 / 4
   \<and> (3 / 2 :: real) < 9 / 4"
proof -
  have p: "float_pow default_platform (3 / 2) 1 = Inr (3 / 2)"
    "float_pow default_platform (3 / 2) 2 = Inr (9 / 4)"
    by (simp_all add: default_platform_def power_divide)
  have q: "sleep_error default_platform (3 / 2) = None"
    "sleep_error default_platform (9 / 4) = None"
    by (simp_all add: default_platform_def)
  show ?thesis
    using rate_limited_twice_then_ok [of
      "\<lambda>n. Inr \<lparr>status_code = (if n < 2 then 429 else 200), resp_text = ''body'',
                json_body = Inr (JObj [(''tag'', JStr ''#ABC''),
                   (''memberList'', JArr [JObj [(''name'', JStr ''a'')],
                                           JObj [(''name'', JStr ''b'')]])])\<rparr>"
      "\<lparr>status_code = 429, resp_text = ''body'',
                json_body = Inr (JObj [(''tag'', JStr ''#ABC''),
                   (''memberList'', JArr [JObj [(''name'', JStr ''a'')],
                                           JObj [(''name'', JStr ''b'')]])])\<rparr>"
      "\<lparr>status_code = 429, resp_text = ''body'',
                json_body = Inr (JObj [(''tag'', JStr ''#ABC''),
                   (''memberList'', JArr [JObj [(''name'', JStr ''a'')],
                                           JObj [(''name'', JStr ''b'')]])])\<rparr>"
      "\<lparr>status_code = 200, resp_text = ''body'',
                json_body = Inr (JObj [(''tag'', JStr ''#ABC''),
                   (''memberList'', JArr [JObj [(''name'', JStr ''a'')],
                                           JObj [(''name'', JStr ''b'')]])])\<rparr>"
      "JObj [(''tag'', JStr ''#ABC''),
                   (''memberList'', JArr [JObj [(''name'', JStr ''a'')],
                                           JObj [(''name'', JStr ''b'')]])]"
      5 default_platform "3 / 2" "3 / 2" "9 / 4" "''#U1''" "''#abc''" "''tok''" 30] p q
    by (simp add: power_divide DataFrame_def)
qed

end
